theory Spec2Isabelle
  imports Main "HOL-Library.Sublist"
begin

section \<open>Go strings and the standard-library helpers the wrapper calls\<close>

text \<open>
  A Go string is a sequence of bytes, here a \<open>char list\<close>. The helpers below are the
  functions of the packages \<open>strings\<close>, \<open>path/filepath\<close> and \<open>os\<close> that
  \<open>multiprof.go\<close> calls, on a Unix system (separator \<open>/\<close>, no volume names).
\<close>

definition HasPrefix :: "string \<Rightarrow> string \<Rightarrow> bool" where
  "HasPrefix s p = (length p \<le> length s \<and> take (length p) s = p)"

definition HasSuffix :: "string \<Rightarrow> string \<Rightarrow> bool" where
  "HasSuffix s x = (length x \<le> length s \<and> drop (length s - length x) s = x)"

definition TrimSuffix :: "string \<Rightarrow> string \<Rightarrow> string" where
  "TrimSuffix s x = (if HasSuffix s x then take (length s - length x) s else s)"

text \<open>
  \<open>strings.ReplaceAll(s, old, "")\<close>: the occurrences of \<open>old\<close> are found from left
  to right, each search starting after the previous occurrence, and dropped. With an
  empty \<open>old\<close> the old and the new string are equal and \<open>s\<close> is returned as it is.
\<close>

fun ReplaceAll_del :: "string \<Rightarrow> string \<Rightarrow> string" where
  "ReplaceAll_del [] old = []"
| "ReplaceAll_del (c # cs) old =
     (if old \<noteq> [] \<and> HasPrefix (c # cs) old
      then ReplaceAll_del (drop (length old) (c # cs)) old
      else c # ReplaceAll_del cs old)"

subsection \<open>path/filepath\<close>

text \<open>The elements of a path: the pieces between its separators.\<close>

fun splitSep :: "string \<Rightarrow> string list" where
  "splitSep [] = [[]]"
| "splitSep (c # cs) =
     (if c = CHR ''/'' then [] # splitSep cs
      else (case splitSep cs of
              [] \<Rightarrow> [[c]]
            | s # ss \<Rightarrow> (c # s) # ss))"

fun joinSep :: "string list \<Rightarrow> string" where
  "joinSep [] = []"
| "joinSep [s] = s"
| "joinSep (s # t # ss) = s @ ''/'' @ joinSep (t # ss)"

text \<open>
  The element loop of \<open>filepath.Clean\<close>. \<open>st\<close> is the output written so far, as the
  stack of its elements (last one first). An empty element and \<open>.\<close> are skipped;
  \<open>..\<close> removes the last real element, is dropped at the root, and is kept in front of
  a path that is not rooted; any other element is appended.
\<close>

fun cleanElems :: "bool \<Rightarrow> string list \<Rightarrow> string list \<Rightarrow> string list" where
  "cleanElems rooted st [] = rev st"
| "cleanElems rooted st (s # ss) =
     (if s = [] \<or> s = ''.'' then cleanElems rooted st ss
      else if s = ''..'' then
        (case st of
           t # ts \<Rightarrow>
             if t \<noteq> ''..'' then cleanElems rooted ts ss
             else if rooted then cleanElems rooted st ss
             else cleanElems rooted (''..'' # st) ss
         | [] \<Rightarrow>
             if rooted then cleanElems rooted st ss
             else cleanElems rooted (''..'' # st) ss)
      else cleanElems rooted (s # st) ss)"

text \<open>A path element that \<open>Clean\<close> keeps as it is.\<close>

definition realElem :: "string \<Rightarrow> bool" where
  "realElem s = (s \<noteq> [] \<and> s \<noteq> ''.'' \<and> s \<noteq> ''..'' \<and> CHR ''/'' \<notin> set s)"

definition Clean :: "string \<Rightarrow> string" where
  "Clean path =
     (let rooted = HasPrefix path ''/'';
          out = (if rooted then ''/'' else []) @ joinSep (cleanElems rooted [] (splitSep path))
      in if out = [] then ''.'' else out)"

text \<open>\<open>filepath.Join(a, b)\<close>: empty leading elements are ignored, the rest is joined
  with the separator and cleaned.\<close>

definition Join2 :: "string \<Rightarrow> string \<Rightarrow> string" where
  "Join2 a b =
     (if a \<noteq> [] then Clean (a @ ''/'' @ b)
      else if b \<noteq> [] then Clean b
      else [])"

definition Base :: "string \<Rightarrow> string" where
  "Base path =
     (if path = [] then ''.''
      else
        let p = rev (dropWhile (\<lambda>c. c = CHR ''/'') (rev path));
            q = rev (takeWhile (\<lambda>c. c \<noteq> CHR ''/'') (rev p))
        in if q = [] then ''/'' else q)"

subsection \<open>The process environment\<close>

text \<open>
  The environment maps variable names to values. \<open>os.Getenv\<close> does not tell an unset
  variable from an empty one. \<open>os.Setenv\<close> is called by the wrapper with the keys
  \<open>HOME\<close> and \<open>PATH\<close> only; values are taken to be free of NUL bytes, as environment
  strings are, so that the call succeeds.
\<close>

type_synonym environ = "string \<rightharpoonup> string"

definition Getenv :: "environ \<Rightarrow> string \<Rightarrow> string" where
  "Getenv e k = (case e k of None \<Rightarrow> [] | Some v \<Rightarrow> v)"

definition Setenv :: "environ \<Rightarrow> string \<Rightarrow> string \<Rightarrow> environ" where
  "Setenv e k v = e(k \<mapsto> v)"

text \<open>\<open>os.UserHomeDir\<close> on Unix reads \<open>$HOME\<close> and fails when it is empty or unset.\<close>

definition UserHomeDir :: "environ \<Rightarrow> string option" where
  "UserHomeDir e = (let v = Getenv e ''HOME'' in if v \<noteq> [] then Some v else None)"

subsection \<open>os.Expand\<close>

definition isShellSpecialVar :: "char \<Rightarrow> bool" where
  "isShellSpecialVar c = (c \<in> set ''*#$@!?-0123456789'')"

definition isAlphaNum :: "char \<Rightarrow> bool" where
  "isAlphaNum c =
     (let n = (of_char c :: nat)
      in c = CHR ''_'' \<or> (48 \<le> n \<and> n \<le> 57) \<or> (97 \<le> n \<and> n \<le> 122) \<or> (65 \<le> n \<and> n \<le> 90))"

text \<open>
  \<open>getShellName s\<close> returns the variable name that begins \<open>s\<close> (the text after a
  dollar sign) and the number of bytes used. \<open>os.Expand\<close> calls it on a non-empty string
  only.
\<close>

fun getShellName :: "string \<Rightarrow> string \<times> nat" where
  "getShellName [] = ([], 0)"
| "getShellName (c # cs) =
     (if c = CHR ''{'' then
        (case cs of
           x # y # zs \<Rightarrow>
             if isShellSpecialVar x \<and> y = CHR ''}'' then ([x], 3)
             else
               (let nm = takeWhile (\<lambda>z. z \<noteq> CHR ''}'') cs
                in if length nm = length cs then ([], 1)
                   else if nm = [] then ([], 2)
                   else (nm, length nm + 2))
         | _ \<Rightarrow>
               (let nm = takeWhile (\<lambda>z. z \<noteq> CHR ''}'') cs
                in if length nm = length cs then ([], 1)
                   else if nm = [] then ([], 2)
                   else (nm, length nm + 2)))
      else if isShellSpecialVar c then ([c], 1)
      else (let nm = takeWhile isAlphaNum (c # cs) in (nm, length nm)))"

fun Expand :: "(string \<Rightarrow> string) \<Rightarrow> string \<Rightarrow> string" where
  "Expand mapping [] = []"
| "Expand mapping [c] = [c]"
| "Expand mapping (c # d # cs) =
     (if c = CHR ''$'' then
        (case getShellName (d # cs) of
           (name, w) \<Rightarrow>
             (if name = [] \<and> 0 < w then []
              else if name = [] then [c]
              else mapping name) @ Expand mapping (drop w (d # cs)))
      else c # Expand mapping (d # cs))"

definition ExpandEnv :: "environ \<Rightarrow> string \<Rightarrow> string" where
  "ExpandEnv e s = Expand (Getenv e) s"

section \<open>multiprof.go\<close>

subsection \<open>Configuration\<close>

record Rule =
  Pattern :: string
  Home :: string

record Settings =
  Suffix :: string

record Config =
  Settings :: Settings
  Rules :: "Rule list"

definition wrapperDirName :: string where
  "wrapperDirName = ''.local/bin/multiprof''"

definition debugEnvVar :: string where
  "debugEnvVar = ''MULTIPROF_DEBUG''"

definition debugMode :: "environ \<Rightarrow> bool" where
  "debugMode e = (Getenv e debugEnvVar = ''1'' \<or> Getenv e debugEnvVar = ''true'')"

subsection \<open>Helpers\<close>

definition expandPath :: "environ \<Rightarrow> string \<Rightarrow> string" where
  "expandPath e path =
     ExpandEnv e
       (if HasPrefix path ''~'' then
          (case UserHomeDir e of
             Some homeDir \<Rightarrow> Join2 homeDir (drop 1 path)
           | None \<Rightarrow> path)
        else path)"

definition getWrapperDir :: "environ \<Rightarrow> string" where
  "getWrapperDir e = expandPath e (Join2 ''~/'' wrapperDirName)"

subsection \<open>The glob matcher\<close>

text \<open>
  \<open>glob.Compile\<close> belongs to the dependency \<open>github.com/gobwas/glob\<close>, whose source is
  not part of the repository. \<open>runWrapper\<close> takes it as a parameter: a compiled glob is
  its \<open>Match\<close> method, and a pattern that fails to compile gives the nil \<open>Glob\<close> next to
  the error, here \<open>None\<close>.
\<close>

type_synonym Glob = "string \<Rightarrow> bool"

text \<open>
  Modelled from the spec: the pattern language of \<open>glob.Compile(pattern, separators...)\<close>,
  for the patterns made of literal characters, \<open>?\<close>, \<open>*\<close> and \<open>**\<close>. As the library
  documents it and the spec repeats it, \<open>*\<close> matches any run of non-separator
  characters, \<open>**\<close> any run of characters and \<open>?\<close> one non-separator character, where
  the separators are the characters passed after the pattern. Patterns that use
  a backslash, a bracket, a brace or a comma are outside this fragment, and
  \<open>lexGlob\<close> answers \<open>None\<close> for them. A character is a byte here; the library
  matches \<open>?\<close> against one UTF-8 encoded character.
\<close>

datatype gtoken = Text char | Single | Any | Super

fun lexGlob :: "string \<Rightarrow> gtoken list option" where
  "lexGlob [] = Some []"
| "lexGlob (c # cs) =
     (if c \<in> set (CHR 0x5C # ''[]{},'') then None
      else if c = CHR ''?'' then map_option ((#) Single) (lexGlob cs)
      else if c = CHR ''*'' then
        (case cs of
           d # ds \<Rightarrow>
             if d = CHR ''*'' then map_option ((#) Super) (lexGlob ds)
             else map_option ((#) Any) (lexGlob cs)
         | [] \<Rightarrow> Some [Any])
      else map_option ((#) (Text c)) (lexGlob cs))"

fun globMatch :: "char list \<Rightarrow> gtoken list \<Rightarrow> string \<Rightarrow> bool" where
  "globMatch seps [] s = (s = [])"
| "globMatch seps (Text c # ts) s =
     (case s of [] \<Rightarrow> False | d # ds \<Rightarrow> d = c \<and> globMatch seps ts ds)"
| "globMatch seps (Single # ts) s =
     (case s of [] \<Rightarrow> False | d # ds \<Rightarrow> d \<notin> set seps \<and> globMatch seps ts ds)"
| "globMatch seps (Any # ts) s =
     list_ex (\<lambda>k. list_all (\<lambda>d. d \<notin> set seps) (take k s) \<and> globMatch seps ts (drop k s))
       [0..<Suc (length s)]"
| "globMatch seps (Super # ts) s =
     list_ex (\<lambda>k. globMatch seps ts (drop k s)) [0..<Suc (length s)]"

definition globCompile :: "char list \<Rightarrow> string \<Rightarrow> Glob option" where
  "globCompile seps pattern = map_option (globMatch seps) (lexGlob pattern)"

subsection \<open>Wrapper execution\<close>

text \<open>
  The rule loop of \<open>runWrapper\<close>. Its result is the list of the rule indices for which
  the loop body ran, and how the loop ended: past the last rule with \<open>profileMatched\<close>
  still false, at the \<open>break\<close> of rule \<open>i\<close> with \<open>newHome\<close> set, or in the call of
  \<open>Match\<close> on the nil \<open>Glob\<close> that \<open>glob.Compile\<close> returned for rule \<open>i\<close> (the error
  is discarded), which is a nil dereference and panics.
\<close>

datatype scan = NoMatch | Matched nat string | NilGlob nat

fun ruleLoop ::
  "(string \<Rightarrow> Glob option) \<Rightarrow> environ \<Rightarrow> string \<Rightarrow> string \<Rightarrow> nat \<Rightarrow> Rule list \<Rightarrow> nat list \<times> scan"
where
  "ruleLoop Compile e expandedCwd expandedCwdWithSlash i [] = ([], NoMatch)"
| "ruleLoop Compile e expandedCwd expandedCwdWithSlash i (rule # rest) =
     (let expandedPattern = expandPath e (Pattern rule)
      in case Compile expandedPattern of
           None \<Rightarrow> ([i], NilGlob i)
         | Some g \<Rightarrow>
             if g expandedCwd \<or> g expandedCwdWithSlash
             then ([i], Matched i (expandPath e (Home rule)))
             else (case ruleLoop Compile e expandedCwd expandedCwdWithSlash (Suc i) rest of
                     (seen, r) \<Rightarrow> (i # seen, r)))"

text \<open>
  The same loop as a relation between the rules still to visit (with the index of the
  first of them) and the way the loop ends, one rule for each path through the body.
\<close>

inductive loopRun ::
  "(string \<Rightarrow> Glob option) \<Rightarrow> environ \<Rightarrow> string \<Rightarrow> string \<Rightarrow> nat \<Rightarrow> Rule list \<Rightarrow> scan \<Rightarrow> bool"
  for Compile :: "string \<Rightarrow> Glob option" and e :: environ
    and expandedCwd :: string and expandedCwdWithSlash :: string
where
  loop_end: "loopRun Compile e expandedCwd expandedCwdWithSlash i [] NoMatch"
| loop_nil:
    "Compile (expandPath e (Pattern rule)) = None \<Longrightarrow>
     loopRun Compile e expandedCwd expandedCwdWithSlash i (rule # rest) (NilGlob i)"
| loop_break:
    "Compile (expandPath e (Pattern rule)) = Some g \<Longrightarrow>
     g expandedCwd \<or> g expandedCwdWithSlash \<Longrightarrow>
     loopRun Compile e expandedCwd expandedCwdWithSlash i (rule # rest)
       (Matched i (expandPath e (Home rule)))"
| loop_next:
    "Compile (expandPath e (Pattern rule)) = Some g \<Longrightarrow>
     \<not> (g expandedCwd \<or> g expandedCwdWithSlash) \<Longrightarrow>
     loopRun Compile e expandedCwd expandedCwdWithSlash (Suc i) rest r \<Longrightarrow>
     loopRun Compile e expandedCwd expandedCwdWithSlash i (rule # rest) r"

code_pred loopRun .

text \<open>Whether the pattern of a rule compiles, and whether the test of the loop body
  succeeds for it.\<close>

definition ruleMatches ::
  "(string \<Rightarrow> Glob option) \<Rightarrow> environ \<Rightarrow> string \<Rightarrow> string \<Rightarrow> Rule \<Rightarrow> bool"
where
  "ruleMatches Compile e expandedCwd expandedCwdWithSlash rule =
     (case Compile (expandPath e (Pattern rule)) of
        None \<Rightarrow> False
      | Some g \<Rightarrow> g expandedCwd \<or> g expandedCwdWithSlash)"

definition ruleCompiles :: "(string \<Rightarrow> Glob option) \<Rightarrow> environ \<Rightarrow> Rule \<Rightarrow> bool" where
  "ruleCompiles Compile e rule = (Compile (expandPath e (Pattern rule)) \<noteq> None)"

text \<open>Output: lines on the two streams, in the order written.\<close>

datatype stream = Stdout | Stderr

type_synonym line = "stream \<times> string"

definition sq :: string where
  "sq = [CHR 0x27]"

definition dq :: string where
  "dq = [CHR 0x22]"

definition logInfo :: "string \<Rightarrow> line list" where
  "logInfo msg = [(Stdout, ''[INFO] '' @ msg)]"

definition logError :: "string \<Rightarrow> line list" where
  "logError msg = [(Stderr, ''[FAIL] '' @ msg)]"

definition debugf :: "bool \<Rightarrow> string \<Rightarrow> line list" where
  "debugf dbg msg = (if dbg then [(Stderr, ''[DEBUG] '' @ msg)] else [])"

text \<open>
  How \<open>runWrapper\<close> ends: \<open>os.Exit\<close> with a status, a panic, or the call of
  \<open>syscall.Exec\<close> with the target path, the argument vector and \<open>os.Environ()\<close>.
\<close>

datatype final = Exit nat | Panicked | Exec string "string list" environ

text \<open>
  The part of \<open>runWrapper\<close> between the match and the lookup. \<open>e1\<close> is the environment
  after \<open>os.Setenv("HOME", newHome)\<close>; \<open>searchEnv e1\<close> is the environment during
  \<open>exec.LookPath\<close> and \<open>restoredEnv e1\<close> the one after \<open>os.Setenv("PATH", originalPath)\<close>.
\<close>

definition targetCmdName :: "Config \<Rightarrow> string \<Rightarrow> string" where
  "targetCmdName config argv0 = TrimSuffix (Base argv0) (Suffix (Settings config))"

definition safePath :: "string \<Rightarrow> string \<Rightarrow> string" where
  "safePath originalPath wrapperDir = ReplaceAll_del originalPath (wrapperDir @ '':'')"

definition searchEnv :: "environ \<Rightarrow> environ" where
  "searchEnv e1 = Setenv e1 ''PATH'' (safePath (Getenv e1 ''PATH'') (getWrapperDir e1))"

definition restoredEnv :: "environ \<Rightarrow> environ" where
  "restoredEnv e1 = Setenv (searchEnv e1) ''PATH'' (Getenv e1 ''PATH'')"

text \<open>
  \<open>exec.LookPath\<close> is a parameter: it reads the environment in effect (its \<open>PATH\<close>) and
  the file system, and returns the path found (\<open>Inr\<close>) or the text of its error
  (\<open>Inl\<close>). \<open>argv0 # argv\<close> is \<open>os.Args\<close>, which \<open>main\<close> has indexed at 0 before it
  calls \<open>runWrapper\<close>; \<open>cwd\<close> is the result of \<open>os.Getwd\<close> and \<open>config\<close> that of
  \<open>loadConfig\<close>, their errors discarded as in the source. The result is what was
  written, the process environment at the end, and how the function ended.
\<close>

definition runWrapper ::
  "(string \<Rightarrow> Glob option) \<Rightarrow> (environ \<Rightarrow> string \<Rightarrow> string + string) \<Rightarrow>
   Config \<Rightarrow> string \<Rightarrow> string \<Rightarrow> string list \<Rightarrow> environ \<Rightarrow> line list \<times> environ \<times> final"
where
  "runWrapper Compile LookPath config cwd argv0 argv e =
     (let dbg = debugMode e;
          expandedCwd = expandPath e cwd;
          expandedCwdWithSlash = expandedCwd @ ''/'';
          out0 = debugf dbg (''Checking match for '' @ sq @ expandedCwd @ sq @ '' and '' @ sq
                    @ expandedCwdWithSlash @ sq)
      in case snd (ruleLoop Compile e expandedCwd expandedCwdWithSlash 0 (Rules config)) of
           NilGlob i \<Rightarrow> (out0, e, Panicked)
         | NoMatch \<Rightarrow>
             (out0
              @ logError (''No multiprof Rule matched the current directory: '' @ cwd)
              @ logInfo (''To add a Rule, run: multiprof add-rule --pattern '' @ dq @ cwd
                    @ ''/**'' @ dq @ '' --home '' @ dq @ ''/path/to/home'' @ dq),
              e, Exit 1)
         | Matched i newHome \<Rightarrow>
             (let out1 = out0
                    @ debugf dbg (''Matched Rule with pattern: '' @ sq
                        @ Pattern (Rules config ! i) @ sq);
                  e1 = Setenv e ''HOME'' newHome;
                  out2 = out1 @ debugf dbg (''Set HOME to: '' @ sq @ newHome @ sq);
                  name = targetCmdName config argv0;
                  e2 = searchEnv e1;
                  out3 = out2 @ debugf dbg (''Temporarily searching for '' @ sq @ name @ sq
                        @ '' in safe PATH'');
                  found = LookPath e2 name;
                  e3 = restoredEnv e1
              in case found of
                   Inl err \<Rightarrow>
                     (out3 @ logError (''Could not find target command '' @ sq @ name @ sq
                        @ '' in the system PATH: '' @ err),
                      e3, Exit 1)
                 | Inr targetCmdPath \<Rightarrow>
                     (out3 @ debugf dbg (''Executing: '' @ targetCmdPath),
                      e3, Exec targetCmdPath (argv0 # argv) e3)))"

section \<open>Properties\<close>

subsection \<open>String helpers\<close>

lemma HasPrefix_prefix: "HasPrefix s p = prefix p s"
  unfolding HasPrefix_def prefix_def
  by (metis append_eq_conv_conj append_take_drop_id le_add1 length_append)

lemma HasSuffix_suffix: "HasSuffix s x = suffix x s"
  unfolding HasSuffix_def suffix_def
  by (metis append_eq_conv_conj append_take_drop_id diff_add_inverse2 le_add2 length_append
      length_drop)

lemma TrimSuffix_hit: "TrimSuffix (stem @ x) x = stem"
  by (simp add: TrimSuffix_def HasSuffix_def)

lemma TrimSuffix_miss: "\<not> suffix x s \<Longrightarrow> TrimSuffix s x = s"
  by (simp add: TrimSuffix_def HasSuffix_suffix)

lemma TrimSuffix_empty: "TrimSuffix s [] = s"
  by (simp add: TrimSuffix_def)

subsection \<open>Removing the occurrences of a string\<close>

lemma ReplaceAll_del_absent: "\<not> sublist old s \<Longrightarrow> ReplaceAll_del s old = s"
proof (induction s)
  case Nil
  then show ?case by simp
next
  case (Cons c cs)
  from Cons.prems have np: "\<not> prefix old (c # cs)"
    by auto
  from Cons.prems have "\<not> sublist old cs"
    by (auto simp: sublist_Cons_right)
  with Cons.IH np show ?case
    by (simp add: HasPrefix_prefix)
qed

lemma ReplaceAll_del_at_head: "old \<noteq> [] \<Longrightarrow> ReplaceAll_del (old @ q) old = ReplaceAll_del q old"
  by (cases old) (simp_all add: HasPrefix_def)

lemma ReplaceAll_del_first:
  "old \<noteq> [] \<Longrightarrow> \<not> sublist old (p @ butlast old) \<Longrightarrow>
   ReplaceAll_del (p @ old @ q) old = p @ ReplaceAll_del q old"
proof (induction p)
  case Nil
  then show ?case by (simp add: ReplaceAll_del_at_head)
next
  case (Cons a p)
  have np: "\<not> prefix old (a # p @ old @ q)"
  proof
    assume "prefix old (a # p @ old @ q)"
    then have "old = take (length old) ((a # p) @ old @ q)"
      by (metis append_Cons append_eq_conv_conj prefix_def)
    moreover have "old @ q = butlast old @ last old # q"
      using Cons.prems(1) by (metis append_butlast_last_id append_Cons append_Nil append_assoc)
    then have "(a # p) @ old @ q = ((a # p) @ butlast old) @ last old # q"
      by simp
    moreover have "length old \<le> length ((a # p) @ butlast old)"
      by simp
    ultimately have "old = take (length old) ((a # p) @ butlast old)"
      by (metis append_Nil2 diff_is_0_eq take_0 take_append)
    then have "prefix old ((a # p) @ butlast old)"
      by (metis take_is_prefix)
    with Cons.prems(2) show False
      by auto
  qed
  from Cons.prems(2) have "\<not> sublist old (p @ butlast old)"
    by (auto simp: sublist_Cons_right)
  with Cons.IH Cons.prems(1) np show ?case
    by (simp add: HasPrefix_prefix)
qed

lemma HasPrefix_colon_tail:
  assumes "CHR '':'' \<notin> set wd"
  shows "HasPrefix (x @ wd) (wd @ '':'') = HasPrefix x (wd @ '':'')"
proof
  assume h: "HasPrefix (x @ wd) (wd @ '':'')"
  show "HasPrefix x (wd @ '':'')"
  proof (cases "length wd < length x")
    case True
    with h show ?thesis
      by (simp add: HasPrefix_def)
  next
    case False
    from h have "(x @ wd) ! length wd = CHR '':''"
      unfolding HasPrefix_def
      by (metis length_append_singleton lessI nth_append_length nth_take)
    moreover have "(x @ wd) ! length wd \<in> set wd"
    proof -
      from h have "x \<noteq> []"
        by (auto simp: HasPrefix_def)
      with False have "length wd - length x < length wd"
        by (cases x) auto
      moreover from False have "(x @ wd) ! length wd = wd ! (length wd - length x)"
        by (simp add: nth_append)
      ultimately show ?thesis
        by simp
    qed
    ultimately show ?thesis
      using assms by simp
  qed
next
  assume "HasPrefix x (wd @ '':'')"
  then show "HasPrefix (x @ wd) (wd @ '':'')"
    by (simp add: HasPrefix_def)
qed

lemma ReplaceAll_del_keeps_tail:
  assumes "CHR '':'' \<notin> set wd"
  shows "ReplaceAll_del (p @ wd) (wd @ '':'') = ReplaceAll_del p (wd @ '':'') @ wd"
proof (induction p "wd @ '':''" rule: ReplaceAll_del.induct)
  case 1
  have "\<not> sublist (wd @ '':'') wd"
    using assms by (auto simp: sublist_def)
  then show ?case
    by (simp add: ReplaceAll_del_absent)
next
  case (2 c cs)
  show ?case
  proof (cases "HasPrefix (c # cs) (wd @ '':'')")
    case True
    then have len: "length (wd @ '':'') \<le> length (c # cs)"
      by (simp add: HasPrefix_def)
    from True have "HasPrefix ((c # cs) @ wd) (wd @ '':'')"
      using HasPrefix_colon_tail [OF assms] by blast
    then have "ReplaceAll_del ((c # cs) @ wd) (wd @ '':'')
        = ReplaceAll_del (drop (length (wd @ '':'')) ((c # cs) @ wd)) (wd @ '':'')"
      by simp
    also have "drop (length (wd @ '':'')) ((c # cs) @ wd) = drop (length (wd @ '':'')) (c # cs) @ wd"
      using len by simp
    finally show ?thesis
      using True 2(1) by simp
  next
    case False
    then have "\<not> HasPrefix ((c # cs) @ wd) (wd @ '':'')"
      using HasPrefix_colon_tail [OF assms] by blast
    with False 2(2) show ?thesis
      by simp
  qed
qed

subsection \<open>The rule loop\<close>

lemma ruleLoop_Matched:
  "ruleLoop Compile e c1 c2 i rs = (seen, Matched j h) \<Longrightarrow>
   i \<le> j \<and> j - i < length rs
   \<and> ruleMatches Compile e c1 c2 (rs ! (j - i))
   \<and> h = expandPath e (Home (rs ! (j - i)))
   \<and> seen = [i..<Suc j]
   \<and> (\<forall>k<j - i. ruleCompiles Compile e (rs ! k) \<and> \<not> ruleMatches Compile e c1 c2 (rs ! k))"
proof (induction rs arbitrary: i seen)
  case Nil
  then show ?case by simp
next
  case (Cons r rs)
  show ?case
  proof (cases "Compile (expandPath e (Pattern r))")
    case None
    with Cons.prems show ?thesis by simp
  next
    case (Some g)
    show ?thesis
    proof (cases "g c1 \<or> g c2")
      case True
      with Some Cons.prems show ?thesis
        by (auto simp: ruleMatches_def)
    next
      case False
      with Some Cons.prems obtain seen' where
        rec: "ruleLoop Compile e c1 c2 (Suc i) rs = (seen', Matched j h)" and
        seen: "seen = i # seen'"
        by (auto split: prod.splits)
      from Cons.IH [OF rec] have
        ih: "Suc i \<le> j" "j - Suc i < length rs"
          "ruleMatches Compile e c1 c2 (rs ! (j - Suc i))"
          "h = expandPath e (Home (rs ! (j - Suc i)))"
          "seen' = [Suc i..<Suc j]"
          "\<forall>k<j - Suc i. ruleCompiles Compile e (rs ! k) \<and> \<not> ruleMatches Compile e c1 c2 (rs ! k)"
        by simp_all
      from ih(1) obtain m where m: "j - i = Suc m" "j - Suc i = m"
        by (cases "j - i") auto
      have first: "ruleCompiles Compile e r \<and> \<not> ruleMatches Compile e c1 c2 r"
        using Some False by (simp add: ruleCompiles_def ruleMatches_def)
      have "\<forall>k<Suc m. ruleCompiles Compile e ((r # rs) ! k) \<and> \<not> ruleMatches Compile e c1 c2 ((r # rs) ! k)"
        using first ih(6) m(2) by (auto simp: less_Suc_eq_0_disj)
      moreover have "seen = [i..<Suc j]"
        using seen ih(5) ih(1) by (simp add: upt_conv_Cons)
      ultimately show ?thesis
        using ih m by simp
    qed
  qed
qed

lemma ruleLoop_first:
  "n < length rs \<Longrightarrow> ruleMatches Compile e c1 c2 (rs ! n) \<Longrightarrow>
   \<forall>k<n. ruleCompiles Compile e (rs ! k) \<and> \<not> ruleMatches Compile e c1 c2 (rs ! k) \<Longrightarrow>
   ruleLoop Compile e c1 c2 i rs = ([i..<Suc (i + n)], Matched (i + n) (expandPath e (Home (rs ! n))))"
proof (induction rs arbitrary: i n)
  case Nil
  then show ?case by simp
next
  case (Cons r rs)
  show ?case
  proof (cases n)
    case 0
    with Cons.prems(2) show ?thesis
      by (auto simp: ruleMatches_def split: option.splits)
  next
    case (Suc m)
    with Cons.prems(3) have first: "ruleCompiles Compile e r" "\<not> ruleMatches Compile e c1 c2 r"
      by auto
    from Suc Cons.prems have
      "ruleLoop Compile e c1 c2 (Suc i) rs
         = ([Suc i..<Suc (Suc i + m)], Matched (Suc i + m) (expandPath e (Home (rs ! m))))"
      by (intro Cons.IH) auto
    with first Suc show ?thesis
      by (auto simp: ruleCompiles_def ruleMatches_def upt_conv_Cons)
  qed
qed

lemma ruleLoop_nil:
  "n < length rs \<Longrightarrow> \<not> ruleCompiles Compile e (rs ! n) \<Longrightarrow>
   \<forall>k<n. ruleCompiles Compile e (rs ! k) \<and> \<not> ruleMatches Compile e c1 c2 (rs ! k) \<Longrightarrow>
   ruleLoop Compile e c1 c2 i rs = ([i..<Suc (i + n)], NilGlob (i + n))"
proof (induction rs arbitrary: i n)
  case Nil
  then show ?case by simp
next
  case (Cons r rs)
  show ?case
  proof (cases n)
    case 0
    with Cons.prems(2) show ?thesis
      by (auto simp: ruleCompiles_def)
  next
    case (Suc m)
    with Cons.prems(3) have first: "ruleCompiles Compile e r" "\<not> ruleMatches Compile e c1 c2 r"
      by auto
    from Suc Cons.prems have
      "ruleLoop Compile e c1 c2 (Suc i) rs = ([Suc i..<Suc (Suc i + m)], NilGlob (Suc i + m))"
      by (intro Cons.IH) auto
    with first Suc show ?thesis
      by (auto simp: ruleCompiles_def ruleMatches_def upt_conv_Cons)
  qed
qed

lemma ruleLoop_none:
  "\<forall>r\<in>set rs. ruleCompiles Compile e r \<and> \<not> ruleMatches Compile e c1 c2 r \<Longrightarrow>
   ruleLoop Compile e c1 c2 i rs = ([i..<i + length rs], NoMatch)"
proof (induction rs arbitrary: i)
  case Nil
  then show ?case by simp
next
  case (Cons r rs)
  then have rec: "ruleLoop Compile e c1 c2 (Suc i) rs = ([Suc i..<Suc i + length rs], NoMatch)"
    by simp
  have "[i..<Suc (i + length rs)] = i # [Suc i..<Suc (i + length rs)]"
    by (rule upt_conv_Cons) simp
  moreover from Cons.prems obtain g where
    "Compile (expandPath e (Pattern r)) = Some g" "\<not> (g c1 \<or> g c2)"
    by (auto simp: ruleCompiles_def ruleMatches_def)
  ultimately show ?case
    using rec by (simp del: upt_Suc)
qed

lemma ruleLoop_bound:
  "n < length rs \<Longrightarrow> ruleMatches Compile e c1 c2 (rs ! n) \<Longrightarrow>
   set (fst (ruleLoop Compile e c1 c2 i rs)) \<subseteq> {i..i + n}"
proof (induction rs arbitrary: i n)
  case Nil
  then show ?case by simp
next
  case (Cons r rs)
  show ?case
  proof (cases "ruleCompiles Compile e r \<and> \<not> ruleMatches Compile e c1 c2 r")
    case False
    then show ?thesis
      by (auto simp: ruleCompiles_def ruleMatches_def split: option.splits)
  next
    case True
    with Cons.prems obtain m where m: "n = Suc m"
      by (cases n) auto
    with Cons.prems have "set (fst (ruleLoop Compile e c1 c2 (Suc i) rs)) \<subseteq> {Suc i..Suc i + m}"
      by (intro Cons.IH) auto
    with True m show ?thesis
      by (auto simp: ruleCompiles_def ruleMatches_def split: option.splits prod.splits)
  qed
qed

subsection \<open>The paths through runWrapper\<close>

lemma restoredEnv_eq: "restoredEnv e1 = e1(''PATH'' \<mapsto> Getenv e1 ''PATH'')"
  by (simp add: restoredEnv_def searchEnv_def Setenv_def)

lemma runWrapper_NilGlob:
  "snd (ruleLoop Compile e (expandPath e cwd) (expandPath e cwd @ ''/'') 0 (Rules config)) = NilGlob i \<Longrightarrow>
   snd (runWrapper Compile LookPath config cwd argv0 argv e) = (e, Panicked)"
  by (simp add: runWrapper_def Let_def)

lemma runWrapper_NoMatch:
  "snd (ruleLoop Compile e (expandPath e cwd) (expandPath e cwd @ ''/'') 0 (Rules config)) = NoMatch \<Longrightarrow>
   runWrapper Compile LookPath config cwd argv0 argv e =
     (debugf (debugMode e) (''Checking match for '' @ sq @ expandPath e cwd @ sq @ '' and '' @ sq
          @ expandPath e cwd @ ''/'' @ sq)
      @ [(Stderr, ''[FAIL] No multiprof Rule matched the current directory: '' @ cwd),
         (Stdout, ''[INFO] To add a Rule, run: multiprof add-rule --pattern '' @ dq @ cwd
            @ ''/**'' @ dq @ '' --home '' @ dq @ ''/path/to/home'' @ dq)],
      e, Exit 1)"
  by (simp add: runWrapper_def Let_def logError_def logInfo_def)

lemma runWrapper_Matched:
  "snd (ruleLoop Compile e (expandPath e cwd) (expandPath e cwd @ ''/'') 0 (Rules config)) = Matched i h \<Longrightarrow>
   snd (runWrapper Compile LookPath config cwd argv0 argv e) =
     (restoredEnv (e(''HOME'' \<mapsto> h)),
      case LookPath (searchEnv (e(''HOME'' \<mapsto> h))) (targetCmdName config argv0) of
        Inl err \<Rightarrow> Exit 1
      | Inr targetCmdPath \<Rightarrow> Exec targetCmdPath (argv0 # argv) (restoredEnv (e(''HOME'' \<mapsto> h))))"
  by (simp add: runWrapper_def Let_def Setenv_def split: sum.splits)

lemma runWrapper_not_found:
  "snd (ruleLoop Compile e (expandPath e cwd) (expandPath e cwd @ ''/'') 0 (Rules config)) = Matched i h \<Longrightarrow>
   LookPath (searchEnv (e(''HOME'' \<mapsto> h))) (targetCmdName config argv0) = Inl err \<Longrightarrow>
   last (fst (runWrapper Compile LookPath config cwd argv0 argv e)) =
     (Stderr, ''[FAIL] Could not find target command '' @ sq @ targetCmdName config argv0 @ sq
        @ '' in the system PATH: '' @ err)"
  by (simp add: runWrapper_def Let_def Setenv_def logError_def)

subsection \<open>Target command name\<close>

text \<open>
  C6. The target command name is the base name of the invoking path with the configured
  suffix cut off its end when the name ends with that suffix, and the name itself
  otherwise; with the empty suffix every name passes through unchanged.
\<close>

theorem targetCmdName_exact_suffix:
  "targetCmdName config argv0 = TrimSuffix (Base argv0) (Suffix (Settings config))
   \<and> (suffix sfx name \<longrightarrow> TrimSuffix name sfx @ sfx = name)
   \<and> (\<not> suffix sfx name \<longrightarrow> TrimSuffix name sfx = name)
   \<and> TrimSuffix name [] = name"
proof -
  have "TrimSuffix name sfx @ sfx = name" if "suffix sfx name"
  proof -
    from that obtain stem where "name = stem @ sfx"
      by (auto simp: suffix_def)
    then show ?thesis
      by (simp add: TrimSuffix_hit)
  qed
  then show ?thesis
    by (simp add: targetCmdName_def TrimSuffix_miss TrimSuffix_empty)
qed

theorem targetCmdName_exact_suffix_witness:
  "suffix ''_w'' ''aws_w'' \<and> TrimSuffix ''aws_w'' ''_w'' = ''aws''
   \<and> \<not> suffix ''_w'' ''aws'' \<and> TrimSuffix ''aws'' ''_w'' = ''aws''
   \<and> targetCmdName \<lparr>Settings = \<lparr>Suffix = ''_w''\<rparr>, Rules = []\<rparr> ''/wrap/aws_w'' = ''aws''
   \<and> targetCmdName \<lparr>Settings = \<lparr>Suffix = []\<rparr>, Rules = []\<rparr> ''/wrap/aws_w'' = ''aws_w''"
  using targetCmdName_exact_suffix
      [of "\<lparr>Settings = \<lparr>Suffix = ''_w''\<rparr>, Rules = []\<rparr>" "''/wrap/aws_w''" "''_w''" "''aws_w''"]
    targetCmdName_exact_suffix
      [of "\<lparr>Settings = \<lparr>Suffix = []\<rparr>, Rules = []\<rparr>" "''/wrap/aws_w''" "''_w''" "''aws''"]
  by (simp add: Base_def suffix_def)

subsection \<open>Safe PATH\<close>

text \<open>
  C3. The safe \<open>PATH\<close> that \<open>runWrapper\<close> installs for the lookup is the original
  \<open>PATH\<close> with the occurrences of the wrapper directory followed by a colon removed,
  as a substring: a \<open>PATH\<close> without such an occurrence is unchanged, the first
  occurrence is cut out and the rest of the string treated in the same way; a wrapper
  directory at the end of \<open>PATH\<close>, with no colon after it, stays. \<open>/wrap:/usr/bin\<close> with
  wrapper directory \<open>/wrap\<close> gives \<open>/usr/bin\<close>.
\<close>

theorem safePath_literal_removal:
  "Getenv (searchEnv e1) ''PATH'' = safePath (Getenv e1 ''PATH'') (getWrapperDir e1)
   \<and> (\<not> sublist (wd @ '':'') path \<longrightarrow> safePath path wd = path)
   \<and> (\<not> sublist (wd @ '':'') (pre @ wd) \<longrightarrow>
        safePath (pre @ wd @ '':'' @ post) wd = pre @ safePath post wd)
   \<and> (CHR '':'' \<notin> set wd \<longrightarrow> safePath (pre @ wd) wd = safePath pre wd @ wd)
   \<and> safePath ''/wrap:/usr/bin'' ''/wrap'' = ''/usr/bin''
   \<and> safePath ''/usr/bin:/wrap'' ''/wrap'' = ''/usr/bin:/wrap''"
proof -
  have a: "Getenv (searchEnv e1) ''PATH'' = safePath (Getenv e1 ''PATH'') (getWrapperDir e1)"
    by (simp add: searchEnv_def Setenv_def Getenv_def)
  have b: "safePath path wd = path" if "\<not> sublist (wd @ '':'') path"
    using that by (simp add: safePath_def ReplaceAll_del_absent)
  have c: "safePath (pre @ wd @ '':'' @ post) wd = pre @ safePath post wd"
    if "\<not> sublist (wd @ '':'') (pre @ wd)"
  proof -
    have "ReplaceAll_del (pre @ (wd @ '':'') @ post) (wd @ '':'')
        = pre @ ReplaceAll_del post (wd @ '':'')"
      using that by (intro ReplaceAll_del_first) simp_all
    then show ?thesis
      by (simp add: safePath_def)
  qed
  have d: "safePath (pre @ wd) wd = safePath pre wd @ wd" if "CHR '':'' \<notin> set wd"
    using that by (simp add: safePath_def ReplaceAll_del_keeps_tail)
  have x: "safePath ''/wrap:/usr/bin'' ''/wrap'' = ''/usr/bin''"
    by (simp add: safePath_def HasPrefix_def)
  have y: "safePath ''/usr/bin:/wrap'' ''/wrap'' = ''/usr/bin:/wrap''"
    by (simp add: safePath_def HasPrefix_def)
  from a b c d x y show ?thesis
    by blast
qed

theorem safePath_literal_removal_witness:
  "\<not> sublist ''/wrap:'' ''/usr/bin:/wrap''
   \<and> safePath ''/usr/bin:/wrap'' ''/wrap'' = ''/usr/bin:/wrap''
   \<and> \<not> sublist ''/wrap:'' ''/wrap''
   \<and> safePath ''/wrap:/usr/bin'' ''/wrap'' = ''/usr/bin''
   \<and> \<not> sublist ''/wrap:'' ''/opt:/wrap''
   \<and> safePath ''/opt:/wrap:/usr/bin:/wrap:/bin'' ''/wrap'' = ''/opt:/usr/bin:/bin''
   \<and> CHR '':'' \<notin> set ''/wrap''
   \<and> safePath ''/wrap:/usr/bin:/wrap'' ''/wrap'' = ''/usr/bin:/wrap''"
proof -
  have n1: "\<not> sublist (''/wrap'' @ '':'') ''/usr/bin:/wrap''"
    by (simp add: sublist_Cons_right)
  have n2: "\<not> sublist (''/wrap'' @ '':'') ([] @ ''/wrap'')"
    by (simp add: sublist_Cons_right)
  have n3: "\<not> sublist (''/wrap'' @ '':'') (''/opt:'' @ ''/wrap'')"
    by (simp add: sublist_Cons_right)
  have n4: "CHR '':'' \<notin> set ''/wrap''"
    by simp
  note t = safePath_literal_removal
  from t [of _ "''/wrap''" "''/usr/bin:/wrap''"] n1
  have r1: "safePath ''/usr/bin:/wrap'' ''/wrap'' = ''/usr/bin:/wrap''"
    by blast
  from t [of _ "''/wrap''" _ "[]" "''/usr/bin''"] n2 n1
  have r2: "safePath ''/wrap:/usr/bin'' ''/wrap'' = safePath ''/usr/bin'' ''/wrap''"
    by simp
  from t [of _ "''/wrap''" _ "''/opt:''" "''/usr/bin:/wrap:/bin''"] n3
  have r3: "safePath ''/opt:/wrap:/usr/bin:/wrap:/bin'' ''/wrap''
      = ''/opt:'' @ safePath ''/usr/bin:/wrap:/bin'' ''/wrap''"
    by simp
  from t [of _ "''/wrap''" _ "''/wrap:/usr/bin:''"] n4
  have r4: "safePath (''/wrap:/usr/bin:'' @ ''/wrap'') ''/wrap''
      = safePath ''/wrap:/usr/bin:'' ''/wrap'' @ ''/wrap''"
    by blast
  have e2: "safePath ''/usr/bin'' ''/wrap'' = ''/usr/bin''"
    by (simp add: safePath_def HasPrefix_def)
  have e3: "safePath ''/usr/bin:/wrap:/bin'' ''/wrap'' = ''/usr/bin:/bin''"
    by (simp add: safePath_def HasPrefix_def)
  have e4: "safePath ''/wrap:/usr/bin:'' ''/wrap'' = ''/usr/bin:''"
    by (simp add: safePath_def HasPrefix_def)
  from n1 n2 n3 n4 r1 r2 r3 r4 e2 e3 e4 show ?thesis
    by simp
qed

subsection \<open>First match wins\<close>



subsection \<open>A pattern that does not compile\<close>

text \<open>
  C8. A rule whose expanded pattern fails to compile is meant to be skipped, the scan
  going on with the next rule. The loop does otherwise: it discards the error of
  \<open>glob.Compile\<close> and calls \<open>Match\<close> on the nil \<open>Glob\<close>. When the loop reaches such a
  rule (every rule before it compiling and not matching), it visits no further rule and
  \<open>runWrapper\<close> ends in a panic, also when a later rule matches the directory.
\<close>

theorem uncompilable_pattern_panics:
  "n < length (Rules config) \<Longrightarrow>
   \<not> ruleCompiles Compile e (Rules config ! n) \<Longrightarrow>
   \<forall>k<n. ruleCompiles Compile e (Rules config ! k)
      \<and> \<not> ruleMatches Compile e (expandPath e cwd) (expandPath e cwd @ ''/'') (Rules config ! k) \<Longrightarrow>
   ruleLoop Compile e (expandPath e cwd) (expandPath e cwd @ ''/'') 0 (Rules config)
     = ([0..<Suc n], NilGlob n)
   \<and> snd (runWrapper Compile LookPath config cwd argv0 argv e) = (e, Panicked)"
proof -
  assume "n < length (Rules config)" "\<not> ruleCompiles Compile e (Rules config ! n)"
    "\<forall>k<n. ruleCompiles Compile e (Rules config ! k)
      \<and> \<not> ruleMatches Compile e (expandPath e cwd) (expandPath e cwd @ ''/'') (Rules config ! k)"
  then have "ruleLoop Compile e (expandPath e cwd) (expandPath e cwd @ ''/'') 0 (Rules config)
      = ([0..<Suc (0 + n)], NilGlob (0 + n))"
    by (intro ruleLoop_nil) simp_all
  then have run: "ruleLoop Compile e (expandPath e cwd) (expandPath e cwd @ ''/'') 0 (Rules config)
      = ([0..<Suc n], NilGlob n)"
    by simp
  then have "snd (ruleLoop Compile e (expandPath e cwd) (expandPath e cwd @ ''/'') 0 (Rules config))
      = NilGlob n"
    by simp
  then have "snd (runWrapper Compile LookPath config cwd argv0 argv e) = (e, Panicked)"
    by (rule runWrapper_NilGlob)
  with run show ?thesis
    by simp
qed

theorem uncompilable_pattern_panics_witness:
  "\<not> ruleCompiles (\<lambda>p. if p = ''['' then None else globCompile [] p) Map.empty
        \<lparr>Pattern = ''['', Home = ''/h0''\<rparr>
   \<and> ruleMatches (\<lambda>p. if p = ''['' then None else globCompile [] p) Map.empty ''/x'' ''/x/''
        \<lparr>Pattern = ''/**'', Home = ''/h1''\<rparr>
   \<and> snd (snd (runWrapper (\<lambda>p. if p = ''['' then None else globCompile [] p)
        (\<lambda>e f. Inr (''/usr/bin/'' @ f))
        \<lparr>Settings = \<lparr>Suffix = ''_w''\<rparr>,
         Rules = [\<lparr>Pattern = ''['', Home = ''/h0''\<rparr>, \<lparr>Pattern = ''/**'', Home = ''/h1''\<rparr>]\<rparr>
        ''/x'' ''aws_w'' [] Map.empty)) = Panicked"
proof -
  let ?C = "\<lambda>p. if p = ''['' then None else globCompile [] p"
  let ?cfg = "\<lparr>Settings = \<lparr>Suffix = ''_w''\<rparr>,
         Rules = [\<lparr>Pattern = ''['', Home = ''/h0''\<rparr>, \<lparr>Pattern = ''/**'', Home = ''/h1''\<rparr>]\<rparr>"
  have c: "\<not> ruleCompiles ?C Map.empty \<lparr>Pattern = ''['', Home = ''/h0''\<rparr>"
    by code_simp
  have m: "ruleMatches ?C Map.empty ''/x'' ''/x/'' \<lparr>Pattern = ''/**'', Home = ''/h1''\<rparr>"
    by code_simp
  from uncompilable_pattern_panics [of 0 ?cfg ?C Map.empty "''/x''" "\<lambda>e f. Inr (''/usr/bin/'' @ f)"
      "''aws_w''" "[]"] c
  have "snd (runWrapper ?C (\<lambda>e f. Inr (''/usr/bin/'' @ f)) ?cfg ''/x'' ''aws_w'' [] Map.empty)
      = (Map.empty, Panicked)"
    by simp
  with c m show ?thesis
    by simp
qed

subsection \<open>Failures\<close>



subsection \<open>The environment and arguments of the target\<close>

text \<open>
  C4. When a rule has matched, the process environment after the lookup is the original
  one with \<open>HOME\<close> set to the expanded home of the matched rule and \<open>PATH\<close> set back
  to the value read before the swap, whether the lookup succeeded or not. When the
  lookup succeeded, \<open>syscall.Exec\<close> is called with the path found, with \<open>os.Args\<close>
  unchanged, and with that environment: every variable but \<open>HOME\<close> reads as it did
  at the start, and the environment is the original one with the single override of
  \<open>HOME\<close> when \<open>PATH\<close> was set at the start.
\<close>

theorem exec_environment:
  "(snd (ruleLoop Compile e (expandPath e cwd) (expandPath e cwd @ ''/'') 0 (Rules config))
        = Matched i h \<longrightarrow>
      h = expandPath e (Home (Rules config ! i))
      \<and> fst (snd (runWrapper Compile LookPath config cwd argv0 argv e))
          = (e(''HOME'' \<mapsto> h))(''PATH'' \<mapsto> Getenv e ''PATH''))
   \<and> (snd (ruleLoop Compile e (expandPath e cwd) (expandPath e cwd @ ''/'') 0 (Rules config))
        = Matched i h
      \<and> LookPath (searchEnv (e(''HOME'' \<mapsto> h))) (targetCmdName config argv0) = Inr p \<longrightarrow>
      snd (snd (runWrapper Compile LookPath config cwd argv0 argv e))
        = Exec p (argv0 # argv) ((e(''HOME'' \<mapsto> h))(''PATH'' \<mapsto> Getenv e ''PATH''))
      \<and> (''PATH'' \<in> dom e \<longrightarrow>
          snd (snd (runWrapper Compile LookPath config cwd argv0 argv e))
            = Exec p (argv0 # argv) (e(''HOME'' \<mapsto> h))))
   \<and> Getenv ((e(''HOME'' \<mapsto> h))(''PATH'' \<mapsto> Getenv e ''PATH'')) k
        = (if k = ''HOME'' then h else Getenv e k)"
proof -
  have r: "restoredEnv (e(''HOME'' \<mapsto> h)) = (e(''HOME'' \<mapsto> h))(''PATH'' \<mapsto> Getenv e ''PATH'')"
    by (simp add: restoredEnv_eq Getenv_def)
  have a: "h = expandPath e (Home (Rules config ! i))
      \<and> fst (snd (runWrapper Compile LookPath config cwd argv0 argv e))
          = (e(''HOME'' \<mapsto> h))(''PATH'' \<mapsto> Getenv e ''PATH'')"
    if m: "snd (ruleLoop Compile e (expandPath e cwd) (expandPath e cwd @ ''/'') 0 (Rules config))
        = Matched i h"
  proof -
    obtain seen where
      "ruleLoop Compile e (expandPath e cwd) (expandPath e cwd @ ''/'') 0 (Rules config)
         = (seen, Matched i h)"
      using m by (metis prod.collapse)
    from ruleLoop_Matched [OF this] have "h = expandPath e (Home (Rules config ! i))"
      by simp
    with runWrapper_Matched [OF m] r show ?thesis
      by simp
  qed
  have b: "snd (snd (runWrapper Compile LookPath config cwd argv0 argv e))
        = Exec p (argv0 # argv) ((e(''HOME'' \<mapsto> h))(''PATH'' \<mapsto> Getenv e ''PATH''))"
    if "snd (ruleLoop Compile e (expandPath e cwd) (expandPath e cwd @ ''/'') 0 (Rules config))
        = Matched i h"
      "LookPath (searchEnv (e(''HOME'' \<mapsto> h))) (targetCmdName config argv0) = Inr p"
    using that r by (simp add: runWrapper_Matched)
  have c: "(e(''HOME'' \<mapsto> h))(''PATH'' \<mapsto> Getenv e ''PATH'') = e(''HOME'' \<mapsto> h)"
    if "''PATH'' \<in> dom e"
    using that by (auto simp: Getenv_def fun_eq_iff)
  have d: "Getenv ((e(''HOME'' \<mapsto> h))(''PATH'' \<mapsto> Getenv e ''PATH'')) k
        = (if k = ''HOME'' then h else Getenv e k)"
    by (simp add: Getenv_def)
  from a b c d show ?thesis
    by simp
qed

theorem exec_environment_witness:
  "snd (runWrapper (globCompile []) (\<lambda>e f. Inr (''/usr/bin/'' @ f))
      \<lparr>Settings = \<lparr>Suffix = ''_w''\<rparr>, Rules = [\<lparr>Pattern = ''/work/**'', Home = ''/home/work''\<rparr>]\<rparr>
      ''/work/proj'' ''/home/u/.local/bin/multiprof/aws_w'' [''s3'', ''ls'']
      [''HOME'' \<mapsto> ''/home/u'', ''PATH'' \<mapsto> ''/home/u/.local/bin/multiprof:/usr/bin''])
   = ([''HOME'' \<mapsto> ''/home/work'', ''PATH'' \<mapsto> ''/home/u/.local/bin/multiprof:/usr/bin''],
      Exec ''/usr/bin/aws'' [''/home/u/.local/bin/multiprof/aws_w'', ''s3'', ''ls'']
        [''HOME'' \<mapsto> ''/home/work'', ''PATH'' \<mapsto> ''/home/u/.local/bin/multiprof:/usr/bin''])"
proof -
  let ?r = "\<lparr>Pattern = ''/work/**'', Home = ''/home/work''\<rparr>"
  let ?cfg = "\<lparr>Settings = \<lparr>Suffix = ''_w''\<rparr>, Rules = [?r]\<rparr>"
  let ?e = "[''HOME'' \<mapsto> ''/home/u'', ''PATH'' \<mapsto> ''/home/u/.local/bin/multiprof:/usr/bin'']"
  let ?ok = "\<lambda>(e::environ) f. (Inr (''/usr/bin/'' @ f) :: string + string)"
  let ?a0 = "''/home/u/.local/bin/multiprof/aws_w''"
  have x: "expandPath ?e ''/work/proj'' = ''/work/proj''"
    by code_simp
  have s: "snd (ruleLoop (globCompile []) ?e ''/work/proj'' ''/work/proj/'' 0 [?r])
      = Matched 0 ''/home/work''"
    by code_simp
  have n: "targetCmdName ?cfg ?a0 = ''aws''"
    by code_simp
  have p: "Getenv ?e ''PATH'' = ''/home/u/.local/bin/multiprof:/usr/bin''" "''PATH'' \<in> dom ?e"
    by (simp_all add: Getenv_def)
  note t = exec_environment [of "globCompile []" ?e "''/work/proj''" ?cfg 0 "''/home/work''" ?ok
      ?a0 "[''s3'', ''ls'']" "''/usr/bin/aws''"]
  from t s x n p
  have "fst (snd (runWrapper (globCompile []) ?ok ?cfg ''/work/proj'' ?a0 [''s3'', ''ls''] ?e))
      = (?e(''HOME'' \<mapsto> ''/home/work''))(''PATH'' \<mapsto> ''/home/u/.local/bin/multiprof:/usr/bin'')"
    and "snd (snd (runWrapper (globCompile []) ?ok ?cfg ''/work/proj'' ?a0 [''s3'', ''ls''] ?e))
      = Exec ''/usr/bin/aws'' [?a0, ''s3'', ''ls'']
          ((?e(''HOME'' \<mapsto> ''/home/work''))(''PATH'' \<mapsto> ''/home/u/.local/bin/multiprof:/usr/bin''))"
    by simp_all
  moreover have "(?e(''HOME'' \<mapsto> ''/home/work''))(''PATH'' \<mapsto> ''/home/u/.local/bin/multiprof:/usr/bin'')
      = [''HOME'' \<mapsto> ''/home/work'', ''PATH'' \<mapsto> ''/home/u/.local/bin/multiprof:/usr/bin'']"
    by (auto simp: fun_eq_iff)
  ultimately show ?thesis
    by (simp add: prod_eq_iff)
qed

subsection \<open>Path expansion\<close>

lemma splitSep_elem: "CHR ''/'' \<notin> set s \<Longrightarrow> splitSep s = [s]"
  by (induction s) auto

lemma splitSep_append: "CHR ''/'' \<notin> set s \<Longrightarrow> splitSep (s @ CHR ''/'' # t) = s # splitSep t"
  by (induction s) auto

lemma splitSep_joinSep:
  "ss \<noteq> [] \<Longrightarrow> \<forall>s\<in>set ss. CHR ''/'' \<notin> set s \<Longrightarrow> splitSep (joinSep ss) = ss"
proof (induction ss rule: joinSep.induct)
  case 1
  then show ?case by simp
next
  case (2 s)
  then show ?case by (simp add: splitSep_elem)
next
  case (3 s t ss)
  then show ?case by (simp add: splitSep_append)
qed

lemma joinSep_append:
  "a \<noteq> [] \<Longrightarrow> b \<noteq> [] \<Longrightarrow> joinSep (a @ b) = joinSep a @ ''/'' @ joinSep b"
proof (induction a rule: joinSep.induct)
  case 1
  then show ?case by simp
next
  case (2 s)
  then show ?case by (cases b) auto
next
  case (3 s t ss)
  then show ?case by simp
qed

lemma cleanElems_tidy:
  "\<forall>s\<in>set ss. s = [] \<or> realElem s \<Longrightarrow>
   cleanElems rooted st ss = rev st @ filter (\<lambda>s. s \<noteq> []) ss"
  by (induction ss arbitrary: st) (auto simp: realElem_def)

lemma Clean_Join_tidy:
  assumes hs: "hs \<noteq> []" and real: "\<forall>s\<in>set (hs @ rs). realElem s"
  shows "Clean ((CHR ''/'' # joinSep hs) @ ''/'' @ (CHR ''/'' # joinSep rs))
     = CHR ''/'' # joinSep (hs @ rs)"
proof -
  let ?mid = "if rs = [] then [[], []] else [] # rs"
  have noslash: "\<forall>s\<in>set (hs @ ?mid). CHR ''/'' \<notin> set s"
    using real by (auto simp: realElem_def)
  have "joinSep (hs @ ?mid) = joinSep hs @ ''/'' @ joinSep ?mid"
    using hs by (intro joinSep_append) auto
  also have "joinSep ?mid = CHR ''/'' # joinSep rs"
    by (cases rs) auto
  finally have path: "(CHR ''/'' # joinSep hs) @ ''/'' @ (CHR ''/'' # joinSep rs)
      = CHR ''/'' # joinSep (hs @ ?mid)"
    by simp
  have "splitSep (joinSep (hs @ ?mid)) = hs @ ?mid"
    using noslash hs by (intro splitSep_joinSep) auto
  then have split: "splitSep (CHR ''/'' # joinSep (hs @ ?mid)) = [] # hs @ ?mid"
    by simp
  have "cleanElems True [] ([] # hs @ ?mid) = rev [] @ filter (\<lambda>s. s \<noteq> []) ([] # hs @ ?mid)"
    using real by (intro cleanElems_tidy) auto
  also have "\<dots> = hs @ rs"
    using real by (auto simp: realElem_def filter_id_conv)
  finally have "cleanElems True [] (splitSep (CHR ''/'' # joinSep (hs @ ?mid))) = hs @ rs"
    using split by simp
  then have "Clean (CHR ''/'' # joinSep (hs @ ?mid)) = CHR ''/'' # joinSep (hs @ rs)"
    by (simp add: Clean_def HasPrefix_def)
  with path show ?thesis
    by simp
qed

lemma Expand_no_dollar: "CHR ''$'' \<notin> set s \<Longrightarrow> Expand m s = s"
  by (induction m s rule: Expand.induct) auto

lemma getShellName_braces:
  assumes "name \<noteq> []" "CHR ''}'' \<notin> set name"
  shows "getShellName (CHR ''{'' # name @ CHR ''}'' # s) = (name, length name + 2)"
proof -
  have tw: "takeWhile (\<lambda>z. z \<noteq> CHR ''}'') (name @ CHR ''}'' # s) = name"
    using assms(2) by (auto simp: takeWhile_tail)
  obtain x xs where n: "name = x # xs"
    using assms(1) by (cases name) auto
  show ?thesis
  proof (cases xs)
    case Nil
    with n tw show ?thesis
      by auto
  next
    case (Cons y ys)
    with n assms(2) have "y \<noteq> CHR ''}''"
      by auto
    with n Cons tw show ?thesis
      by auto
  qed
qed

lemma Expand_braces:
  assumes "name \<noteq> []" "CHR ''}'' \<notin> set name"
  shows "Expand m (''${'' @ name @ ''}'' @ s) = m name @ Expand m s"
  using assms getShellName_braces [OF assms, of s] by simp

lemma getShellName_plain:
  assumes "name \<noteq> []" "\<forall>c\<in>set name. isAlphaNum c" "\<not> isShellSpecialVar (hd name)"
    "s = [] \<or> \<not> isAlphaNum (hd s)"
  shows "getShellName (name @ s) = (name, length name)"
proof -
  obtain x xs where n: "name = x # xs"
    using assms(1) by (cases name) auto
  have "x \<noteq> CHR ''{''"
    using assms(2) n by (auto simp: isAlphaNum_def)
  moreover have "takeWhile isAlphaNum (name @ s) = name"
    using assms(2,4) by (cases s) (auto simp: takeWhile_tail)
  ultimately show ?thesis
    using n assms(3) by simp
qed

lemma Expand_plain:
  assumes "name \<noteq> []" "\<forall>c\<in>set name. isAlphaNum c" "\<not> isShellSpecialVar (hd name)"
    "s = [] \<or> \<not> isAlphaNum (hd s)"
  shows "Expand m (''$'' @ name @ s) = m name @ Expand m s"
proof -
  obtain x xs where n: "name = x # xs"
    using assms(1) by (cases name) auto
  from getShellName_plain [OF assms] n have "getShellName (x # xs @ s) = (name, length name)"
    by simp
  with n show ?thesis
    by simp
qed

lemma expandPath_tilde:
  "Getenv e ''HOME'' \<noteq> [] \<Longrightarrow>
   expandPath e (CHR ''~'' # rest) = ExpandEnv e (Clean (Getenv e ''HOME'' @ ''/'' @ rest))"
  by (simp add: expandPath_def HasPrefix_def UserHomeDir_def Join2_def)

lemma expandPath_plain:
  "\<not> HasPrefix path ''~'' \<or> Getenv e ''HOME'' = [] \<Longrightarrow> expandPath e path = ExpandEnv e path"
  by (auto simp: expandPath_def UserHomeDir_def)




subsection \<open>Determinism of matching\<close>

text \<open>
  The relation \<open>loopRun\<close> describes the runs of the rule loop; every run ends the way
  the function \<open>ruleLoop\<close> computes.
\<close>

lemma loopRun_total: "loopRun Compile e c1 c2 i rs (snd (ruleLoop Compile e c1 c2 i rs))"
proof (induction rs arbitrary: i)
  case Nil
  show ?case by (simp add: loop_end)
next
  case (Cons r rs)
  show ?case
  proof (cases "Compile (expandPath e (Pattern r))")
    case None
    then show ?thesis by (simp add: loop_nil)
  next
    case (Some g)
    show ?thesis
    proof (cases "g c1 \<or> g c2")
      case True
      with Some have "loopRun Compile e c1 c2 i (r # rs) (Matched i (expandPath e (Home r)))"
        by (rule loop_break)
      with Some True show ?thesis by simp
    next
      case False
      from Some False Cons.IH [of "Suc i"]
      have "loopRun Compile e c1 c2 i (r # rs) (snd (ruleLoop Compile e c1 c2 (Suc i) rs))"
        by (rule loop_next)
      with Some False show ?thesis by (auto split: prod.splits)
    qed
  qed
qed


lemma loopRun_result:
  "loopRun Compile e c1 c2 i rs r \<Longrightarrow> snd (ruleLoop Compile e c1 c2 i rs) = r"
  by (induction rule: loopRun.induct) (auto split: prod.splits)

lemma loopRun_unique:
  "loopRun Compile e c1 c2 i rs r1 \<Longrightarrow> loopRun Compile e c1 c2 i rs r2 \<Longrightarrow> r1 = r2"
proof -
  assume a: "loopRun Compile e c1 c2 i rs r1" and b: "loopRun Compile e c1 c2 i rs r2"
  from loopRun_result [OF a] loopRun_result [OF b] show "r1 = r2"
    by simp
qed



subsection \<open>Pattern semantics\<close>

text \<open>
  C2. A rule matches when its compiled pattern matches the expanded directory or that
  directory followed by one separator, and \<open>*\<close> is meant not to match across a path
  separator. \<open>runWrapper\<close> calls \<open>glob.Compile(expandedPattern)\<close> with no separator,
  here \<open>globCompile []\<close>, so that \<open>*\<close> matches any run of characters: the pattern
  \<open>/a/*\<close> matches the directory \<open>/a/c/d\<close> and the loop ends at that rule. Compiled
  with the separator \<open>/\<close> the pattern would not match. The other examples hold:
  \<open>/a/*\<close> matches \<open>/a/c\<close>, and \<open>/a/b/**\<close> matches \<open>/a/b\<close> and \<open>/a/b/c/d\<close> but
  not \<open>/a/bc\<close>.
\<close>

theorem star_matches_across_separators:
  "ruleMatches (globCompile []) Map.empty ''/a/c/d'' ''/a/c/d/'' \<lparr>Pattern = ''/a/*'', Home = ''/h''\<rparr>
   \<and> snd (ruleLoop (globCompile []) Map.empty (expandPath Map.empty ''/a/c/d'')
        (expandPath Map.empty ''/a/c/d'' @ ''/'') 0 [\<lparr>Pattern = ''/a/*'', Home = ''/h''\<rparr>])
      = Matched 0 ''/h''
   \<and> \<not> ruleMatches (globCompile ''/'') Map.empty ''/a/c/d'' ''/a/c/d/''
        \<lparr>Pattern = ''/a/*'', Home = ''/h''\<rparr>
   \<and> ruleMatches (globCompile []) Map.empty ''/a/c'' ''/a/c/'' \<lparr>Pattern = ''/a/*'', Home = ''/h''\<rparr>
   \<and> ruleMatches (globCompile []) Map.empty ''/a/b'' ''/a/b/'' \<lparr>Pattern = ''/a/b/**'', Home = ''/h''\<rparr>
   \<and> ruleMatches (globCompile []) Map.empty ''/a/b/c/d'' ''/a/b/c/d/''
        \<lparr>Pattern = ''/a/b/**'', Home = ''/h''\<rparr>
   \<and> \<not> ruleMatches (globCompile []) Map.empty ''/a/bc'' ''/a/bc/''
        \<lparr>Pattern = ''/a/b/**'', Home = ''/h''\<rparr>"
proof -
  have a: "ruleMatches (globCompile []) Map.empty ''/a/c/d'' ''/a/c/d/''
      \<lparr>Pattern = ''/a/*'', Home = ''/h''\<rparr>"
    by code_simp
  have b: "snd (ruleLoop (globCompile []) Map.empty (expandPath Map.empty ''/a/c/d'')
        (expandPath Map.empty ''/a/c/d'' @ ''/'') 0 [\<lparr>Pattern = ''/a/*'', Home = ''/h''\<rparr>])
      = Matched 0 ''/h''"
    by code_simp
  have c: "\<not> ruleMatches (globCompile ''/'') Map.empty ''/a/c/d'' ''/a/c/d/''
        \<lparr>Pattern = ''/a/*'', Home = ''/h''\<rparr>"
    by code_simp
  have d: "ruleMatches (globCompile []) Map.empty ''/a/c'' ''/a/c/''
      \<lparr>Pattern = ''/a/*'', Home = ''/h''\<rparr>"
    by code_simp
  have f: "ruleMatches (globCompile []) Map.empty ''/a/b'' ''/a/b/''
      \<lparr>Pattern = ''/a/b/**'', Home = ''/h''\<rparr>"
    by code_simp
  have g: "ruleMatches (globCompile []) Map.empty ''/a/b/c/d'' ''/a/b/c/d/''
        \<lparr>Pattern = ''/a/b/**'', Home = ''/h''\<rparr>"
    by code_simp
  have h: "\<not> ruleMatches (globCompile []) Map.empty ''/a/bc'' ''/a/bc/''
        \<lparr>Pattern = ''/a/b/**'', Home = ''/h''\<rparr>"
    by code_simp
  from a b c d f g h show ?thesis
    by blast
qed

subsection \<open>The wrapper directory is resolved under the new home\<close>

lemma joinSep_no_char:
  "c \<noteq> CHR ''/'' \<Longrightarrow> \<forall>s\<in>set ss. c \<notin> set s \<Longrightarrow> c \<notin> set (joinSep ss)"
  by (induction ss rule: joinSep.induct) auto

lemma Join2_wrapperDirName: "Join2 ''~/'' wrapperDirName = ''~/.local/bin/multiprof''"
  by code_simp

lemma getWrapperDir_home:
  "h \<noteq> [] \<Longrightarrow>
   getWrapperDir (e(''HOME'' \<mapsto> h))
     = ExpandEnv (e(''HOME'' \<mapsto> h)) (Clean (h @ ''//.local/bin/multiprof''))"
proof -
  assume "h \<noteq> []"
  then have "Getenv (e(''HOME'' \<mapsto> h)) ''HOME'' \<noteq> []"
    by (simp add: Getenv_def)
  from expandPath_tilde [OF this, of "''/.local/bin/multiprof''"]
  show ?thesis
    by (simp add: getWrapperDir_def Join2_wrapperDirName Getenv_def)
qed

lemma getWrapperDir_tidy:
  assumes h: "h = CHR ''/'' # joinSep hs" and hs: "hs \<noteq> []"
    and real: "\<forall>s\<in>set hs. realElem s \<and> CHR ''$'' \<notin> set s"
  shows "getWrapperDir (e(''HOME'' \<mapsto> h)) = h @ ''/.local/bin/multiprof''"
proof -
  let ?rs = "[''.local'', ''bin'', ''multiprof'']"
  have rs: "joinSep ?rs = ''.local/bin/multiprof''"
    by simp
  have "\<forall>s\<in>set (hs @ ?rs). realElem s"
    using real by (auto simp: realElem_def)
  with hs have "Clean ((CHR ''/'' # joinSep hs) @ ''/'' @ (CHR ''/'' # joinSep ?rs))
      = CHR ''/'' # joinSep (hs @ ?rs)"
    by (rule Clean_Join_tidy)
  also have "joinSep (hs @ ?rs) = joinSep hs @ ''/'' @ joinSep ?rs"
    using hs by (intro joinSep_append) simp_all
  finally have cl: "Clean (h @ ''//.local/bin/multiprof'') = h @ ''/.local/bin/multiprof''"
    using h rs by simp
  have "CHR ''$'' \<notin> set (joinSep hs)"
    using real by (intro joinSep_no_char) auto
  then have nd: "CHR ''$'' \<notin> set (h @ ''/.local/bin/multiprof'')"
    using h by simp
  have "h \<noteq> []"
    using h by simp
  from getWrapperDir_home [OF this, of e] cl
  have "getWrapperDir (e(''HOME'' \<mapsto> h)) = ExpandEnv (e(''HOME'' \<mapsto> h)) (h @ ''/.local/bin/multiprof'')"
    by simp
  also have "\<dots> = h @ ''/.local/bin/multiprof''"
    using nd unfolding ExpandEnv_def by (rule Expand_no_dollar)
  finally show ?thesis .
qed

lemma getWrapperDir_no_home: "getWrapperDir (e(''HOME'' \<mapsto> [])) = ''~/.local/bin/multiprof''"
proof -
  have "Getenv (e(''HOME'' \<mapsto> [])) ''HOME'' = []"
    by (simp add: Getenv_def)
  then have "expandPath (e(''HOME'' \<mapsto> [])) ''~/.local/bin/multiprof''
      = ExpandEnv (e(''HOME'' \<mapsto> [])) ''~/.local/bin/multiprof''"
    by (intro expandPath_plain) simp
  also have "\<dots> = ''~/.local/bin/multiprof''"
    unfolding ExpandEnv_def by (rule Expand_no_dollar) simp
  finally show ?thesis
    by (simp add: getWrapperDir_def Join2_wrapperDirName)
qed



end
